theory Spec2Isabelle
  imports Complex_Main
begin

section \<open>WAF IP set descriptors: data\<close>

text \<open>
  An element of \<open>oldD\<close> or \<open>newD\<close> is a \<open>map[string]interface{}\<close> with the two required
  string fields of the \<open>ip_set_descriptors\<close> schema, \<open>"type"\<close> and \<open>"value"\<close>. Two elements
  are equal when both fields are.
\<close>

record descriptor =
  d_type :: string
  d_value :: string

text \<open>\<open>waf.ChangeActionInsert\<close> and \<open>waf.ChangeActionDelete\<close>.\<close>

datatype ChangeAction = INSERT | DELETE

text \<open>\<open>waf.IPSetDescriptor\<close> and \<open>waf.IPSetUpdate\<close>.\<close>

record IPSetDescriptor =
  Type :: string
  Value :: string

record IPSetUpdate =
  Action :: ChangeAction
  Descriptor :: IPSetDescriptor

text \<open>WAF requires UpdateIPSet operations be split into batches of 1000 updates.\<close>

definition ipSetUpdatesLimit :: int where
  "ipSetUpdatesLimit = 1000"

section \<open>The differ\<close>

text \<open>
  Modelled from the spec: \<open>sliceContainsMap\<close> is called by \<open>DiffIPSetDescriptors\<close> but its
  body is not among the source files. The spec describes it as the search for an equal
  record that matches on a first-available basis: it yields the index of the first
  element equal to the record, or reports that there is none. The Go pair
  \<open>(idx, contains)\<close> is \<open>Some idx\<close> when \<open>contains\<close> holds and \<open>None\<close> otherwise.
\<close>

fun sliceContainsMap :: "descriptor list \<Rightarrow> descriptor \<Rightarrow> nat option" where
  "sliceContainsMap [] m = None"
| "sliceContainsMap (t # l) m =
     (if m = t then Some 0 else map_option Suc (sliceContainsMap l m))"

text \<open>
  The local variables \<open>updates\<close> and \<open>updatesBatches\<close> of \<open>DiffIPSetDescriptors\<close>: the
  running batch and the batches closed so far.
\<close>

record batch_state =
  updates :: "IPSetUpdate list"
  updatesBatches :: "IPSetUpdate list list"

text \<open>The update built for a record, with the given action.\<close>

definition mk_update :: "ChangeAction \<Rightarrow> descriptor \<Rightarrow> IPSetUpdate" where
  "mk_update a d = \<lparr>Action = a, Descriptor = \<lparr>Type = d_type d, Value = d_value d\<rparr>\<rparr>"

text \<open>
  The tail shared by both loop bodies: when the running batch already holds
  \<open>ipSetUpdatesLimit\<close> updates it is pushed onto the batches and a fresh one is started;
  then the update is appended to the running batch.
\<close>

definition append_update ::
  "IPSetUpdate \<Rightarrow> 'a batch_state_scheme \<Rightarrow> 'a batch_state_scheme" where
  "append_update u s =
     (if int (length (updates s)) = ipSetUpdatesLimit
      then s\<lparr>updates := [u], updatesBatches := updatesBatches s @ [updates s]\<rparr>
      else s\<lparr>updates := updates s @ [u]\<rparr>)"

text \<open>The body of the loop over what is left of \<open>newD\<close>: an insert is appended.\<close>

definition new_step ::
  "descriptor \<Rightarrow> 'a batch_state_scheme \<Rightarrow> 'a batch_state_scheme" where
  "new_step nd s = append_update (mk_update INSERT nd) s"

subsection \<open>On slices in a store\<close>

text \<open>
  A Go slice is a view of a backing array, and \<open>DiffIPSetDescriptors\<close> writes to the
  array behind \<open>newD\<close>: \<open>append(newD[:idx], newD[idx+1:]...)\<close> has room in place, so it
  moves the elements after \<open>idx\<close> one cell down in the caller's array and returns the
  view one element shorter. The loop \<open>for _, od := range oldD\<close> fixes the view \<open>oldD\<close>
  once and reads element \<open>i\<close> from the array when iteration \<open>i\<close> starts. When the two
  arguments share storage the loop therefore reads what the cuts have written.

  The store maps the address of a cell to the record in it; a slice is the address of
  its first cell and its length (the capacity plays no part, since no append here
  grows a slice beyond the length it had).
\<close>

type_synonym store = "nat \<Rightarrow> descriptor"

record slice =
  ptr :: nat
  len :: nat

definition elems :: "store \<Rightarrow> slice \<Rightarrow> descriptor list" where
  "elems h sl = map (\<lambda>i. h (ptr sl + i)) [0..<len sl]"

text \<open>
  \<open>append(sl[:idx], sl[idx+1:]...)\<close> on the store: cells \<open>idx\<close> to \<open>len - 2\<close> of the slice
  take the old value of the next cell, every other cell keeps its value.
\<close>

definition delete_at :: "store \<Rightarrow> slice \<Rightarrow> nat \<Rightarrow> store" where
  "delete_at h sl idx = (\<lambda>a. if ptr sl + idx \<le> a \<and> a + 1 < ptr sl + len sl then h (a + 1) else h a)"

record store_state = batch_state +
  heap :: store
  newS :: slice

text \<open>The body of the loop over \<open>oldD\<close>, for the element in the cell at address \<open>a\<close>.\<close>

definition old_step_store :: "nat \<Rightarrow> store_state \<Rightarrow> store_state" where
  "old_step_store a s =
     (let od = heap s a in
      case sliceContainsMap (elems (heap s) (newS s)) od of
        Some idx \<Rightarrow> s\<lparr>heap := delete_at (heap s) (newS s) idx,
                      newS := (newS s)\<lparr>len := len (newS s) - 1\<rparr>\<rparr>
      | None \<Rightarrow> append_update (mk_update DELETE od) s)"

text \<open>The result is the batches returned and the store the call leaves behind.\<close>

definition DiffIPSetDescriptors_store ::
  "store \<Rightarrow> slice \<Rightarrow> slice \<Rightarrow> IPSetUpdate list list \<times> store" where
  "DiffIPSetDescriptors_store h oldS newS0 =
     (let s0 = \<lparr>updates = [], updatesBatches = [], heap = h, newS = newS0\<rparr>;
          s1 = fold old_step_store (map (\<lambda>i. ptr oldS + i) [0..<len oldS]) s0;
          s2 = fold new_step (elems (heap s1) (newS s1)) s1
      in (updatesBatches s2 @ [updates s2], heap s2))"

subsection \<open>Called with two slices of its own\<close>

text \<open>
  Every caller in the package passes two slices that share no storage: each argument
  is \<open>nil\<close> or the result of a \<open>Set.List()\<close> call of its own. \<open>DiffIPSetDescriptors old new\<close>
  is the plan the function returns when called so: on a store that holds the records
  of \<open>old\<close> in its first cells and those of \<open>new\<close> in the cells after them, with one slice
  on each.
\<close>

definition store_of :: "descriptor list \<Rightarrow> store" where
  "store_of xs = (\<lambda>a. if a < length xs then xs ! a else \<lparr>d_type = [], d_value = []\<rparr>)"

definition DiffIPSetDescriptors ::
  "descriptor list \<Rightarrow> descriptor list \<Rightarrow> IPSetUpdate list list" where
  "DiffIPSetDescriptors oldD newD0 =
     fst (DiffIPSetDescriptors_store (store_of (oldD @ newD0))
            \<lparr>ptr = 0, len = length oldD\<rparr> \<lparr>ptr = length oldD, len = length newD0\<rparr>)"

section \<open>Applying the batches\<close>

text \<open>
  A Go \<open>error\<close>: an error of the AWS SDK with its code and message, or an error built by
  \<open>fmt.Errorf\<close> from a prefix and another error, either wrapping it (\<open>%w\<close>) or only
  printing it (\<open>%s\<close>). A \<open>nil\<close> error is \<open>None\<close>.
\<close>

datatype error =
  AWSError string string
  | Wrap string error
  | Msg string error

text \<open>
  \<open>tfawserr.ErrCodeEquals\<close>: whether the error is, or wraps, an AWS error with the given
  code.
\<close>

fun ErrCodeEquals :: "error option \<Rightarrow> string \<Rightarrow> bool" where
  "ErrCodeEquals None code = False"
| "ErrCodeEquals (Some (AWSError c m)) code = (c = code)"
| "ErrCodeEquals (Some (Wrap p e)) code = ErrCodeEquals (Some e) code"
| "ErrCodeEquals (Some (Msg p e)) code = False"

text \<open>
  The remote call made for one batch: \<open>RetryWithToken\<close> around \<open>UpdateIPSetWithContext\<close>,
  for the IP set with the given id. Its body is not among the source files, so it is a
  parameter: from the state of the remote service it yields an error or \<open>nil\<close>, and the
  state it leaves.
\<close>

type_synonym 'w update_call = "string \<Rightarrow> IPSetUpdate list \<Rightarrow> 'w \<Rightarrow> error option \<times> 'w"

text \<open>The loop of \<open>updateIPSetDescriptors\<close> over the batches.\<close>

fun update_batches ::
  "'w update_call \<Rightarrow> string \<Rightarrow> IPSetUpdate list list \<Rightarrow> 'w \<Rightarrow> error option \<times> 'w" where
  "update_batches call ipset_id [] w = (None, w)"
| "update_batches call ipset_id (ipSetUpdates # rest) w =
     (case call ipset_id ipSetUpdates w of
        (Some err, w') \<Rightarrow> (Some (Msg ''updating WAF IPSet: '' err), w')
      | (None, w') \<Rightarrow> update_batches call ipset_id rest w')"

definition updateIPSetDescriptors ::
  "'w update_call \<Rightarrow> string \<Rightarrow> descriptor list \<Rightarrow> descriptor list \<Rightarrow> 'w \<Rightarrow>
     error option \<times> 'w" where
  "updateIPSetDescriptors call ipset_id oldD newD0 w =
     update_batches call ipset_id (DiffIPSetDescriptors oldD newD0) w"

section \<open>Deleting a Transfer user\<close>

text \<open>\<open>transfer.ErrCodeResourceNotFoundException\<close>.\<close>

definition ErrCodeResourceNotFoundException :: string where
  "ErrCodeResourceNotFoundException = ''ResourceNotFoundException''"

text \<open>
  \<open>conn.DeleteUserWithContext\<close> and \<open>waitUserDeleted\<close>, for a server id and a user name:
  remote calls, parameters like the one above. \<open>UserCreateResourceID\<close>, which builds the
  id printed in the error messages, is a parameter too.
\<close>

type_synonym 'w user_call = "string \<Rightarrow> string \<Rightarrow> 'w \<Rightarrow> error option \<times> 'w"

definition userDelete ::
  "(string \<Rightarrow> string \<Rightarrow> string) \<Rightarrow> 'w user_call \<Rightarrow> 'w user_call \<Rightarrow>
     string \<Rightarrow> string \<Rightarrow> 'w \<Rightarrow> error option \<times> 'w" where
  "userDelete UserCreateResourceID DeleteUser waitUserDeleted serverID userName w =
     (let ident = UserCreateResourceID serverID userName in
      case DeleteUser serverID userName w of (err, w1) \<Rightarrow>
        if ErrCodeEquals err ErrCodeResourceNotFoundException then (None, w1)
        else (case err of
                Some e \<Rightarrow> (Some (Wrap (''deleting Transfer User ('' @ ident @ ''): '') e), w1)
              | None \<Rightarrow>
                  (case waitUserDeleted serverID userName w1 of
                     (Some e, w2) \<Rightarrow>
                       (Some (Wrap (''deleting Transfer User ('' @ ident @
                                     ''): waiting for completion: '') e), w2)
                   | (None, w2) \<Rightarrow> (None, w2))))"

section \<open>Notions used to state and prove the properties\<close>

text \<open>
  The run of the two loops told on lists, with the local variable \<open>newD\<close> as the list of
  records it views. Lemma \<open>DiffIPSetDescriptors_store_contents\<close> below shows that the
  function on the store computes this plan from the contents of its two slices
  whenever they share no cell; the proofs about such calls go through it.
\<close>

record diff_state = batch_state +
  newD :: "descriptor list"

text \<open>
  The body of the loop over \<open>oldD\<close>: a record found in \<open>newD\<close> is cut out of \<open>newD\<close> at
  the index found and the loop continues; otherwise a delete is appended.
\<close>

definition old_step :: "descriptor \<Rightarrow> diff_state \<Rightarrow> diff_state" where
  "old_step od s =
     (case sliceContainsMap (newD s) od of
        Some idx \<Rightarrow> s\<lparr>newD := take idx (newD s) @ drop (idx + 1) (newD s)\<rparr>
      | None \<Rightarrow> append_update (mk_update DELETE od) s)"

definition diff_contents ::
  "descriptor list \<Rightarrow> descriptor list \<Rightarrow> IPSetUpdate list list" where
  "diff_contents oldD newD0 =
     (let s0 = \<lparr>updates = [], updatesBatches = [], newD = newD0\<rparr>;
          s1 = fold old_step oldD s0;
          s2 = fold new_step (newD s1) s1
      in updatesBatches s2 @ [updates s2])"

text \<open>The plan the function would return from a state: the closed batches, then the running one.\<close>

definition plan :: "'a batch_state_scheme \<Rightarrow> IPSetUpdate list list" where
  "plan s = updatesBatches s @ [updates s]"

text \<open>
  The loop invariant of the batching: every closed batch holds \<open>n\<close> updates, the running
  batch at most \<open>n\<close>, and the running batch is empty only before the first update.
\<close>

definition batched :: "nat \<Rightarrow> 'a batch_state_scheme \<Rightarrow> bool" where
  "batched n s \<longleftrightarrow>
     (\<forall>b \<in> set (updatesBatches s). length b = n) \<and> length (updates s) \<le> n \<and>
     (updates s = [] \<longrightarrow> updatesBatches s = [])"

text \<open>The records of \<open>old\<close> that find no partner in \<open>new\<close>, each partner being used once.\<close>

fun unmatched :: "descriptor list \<Rightarrow> descriptor list \<Rightarrow> descriptor list" where
  "unmatched [] new = []"
| "unmatched (od # old) new =
     (if od \<in> set new then unmatched old (remove1 od new) else od # unmatched old new)"

text \<open>Sample input: \<open>n\<close> IPv4 host ranges \<open>10.0.x.y/32\<close>.\<close>

definition digit :: "nat \<Rightarrow> char" where
  "digit n = ''0123456789'' ! (n mod 10)"

fun decimal :: "nat \<Rightarrow> string" where
  "decimal n = (if n < 10 then [digit n] else decimal (n div 10) @ [digit n])"

declare decimal.simps [simp del]

definition ipv4_hosts :: "nat \<Rightarrow> descriptor list" where
  "ipv4_hosts n =
     map (\<lambda>i. \<lparr>d_type = ''IPV4'',
               d_value = ''10.0.'' @ decimal (i div 256) @ ''.'' @ decimal (i mod 256) @ ''/32''\<rparr>)
       [0..<n]"

text \<open>
  Two slices share no cell. An empty slice (as \<open>nil\<close> is) shares none with any other.
\<close>

definition separate :: "slice \<Rightarrow> slice \<Rightarrow> bool" where
  "separate a b \<longleftrightarrow>
     len a = 0 \<or> len b = 0 \<or> ptr a + len a \<le> ptr b \<or> ptr b + len b \<le> ptr a"

text \<open>The variables of a run on the store and of a run on the contents agree.\<close>

definition same_vars :: "store_state \<Rightarrow> diff_state \<Rightarrow> bool" where
  "same_vars sh sv \<longleftrightarrow>
     elems (heap sh) (newS sh) = newD sv \<and> updates sh = updates sv \<and>
     updatesBatches sh = updatesBatches sv"

text \<open>
  The state of the remote service after the batches \<open>bs\<close> have been submitted to it in
  order, one call each; and that each of these calls succeeds.
\<close>

definition remote_after ::
  "'w update_call \<Rightarrow> string \<Rightarrow> IPSetUpdate list list \<Rightarrow> 'w \<Rightarrow> 'w" where
  "remote_after call ipset_id bs w = fold (\<lambda>b v. snd (call ipset_id b v)) bs w"

definition all_succeed ::
  "'w update_call \<Rightarrow> string \<Rightarrow> IPSetUpdate list list \<Rightarrow> 'w \<Rightarrow> bool" where
  "all_succeed call ipset_id bs w \<longleftrightarrow>
     (\<forall>i < length bs.
        fst (call ipset_id (bs ! i) (remote_after call ipset_id (take i bs) w)) = None)"

text \<open>
  Sample remote calls. For the batches, the state of the remote is the list of the
  batches it has applied, and the call with index \<open>k\<close> is rejected and leaves the
  state as it was. For a user, the state is the log of the names of the calls made,
  each with a fixed outcome.
\<close>

definition rejecting_at :: "nat \<Rightarrow> (IPSetUpdate list list) update_call" where
  "rejecting_at k ipset_id b w =
     (if length w = k
      then (Some (AWSError ''WAFInternalErrorException'' ''internal error''), w)
      else (None, w @ [b]))"

definition logged :: "string \<Rightarrow> error option \<Rightarrow> (string list) user_call" where
  "logged name r serverID userName w = (r, w @ [name])"

section \<open>Properties of the differ\<close>

subsection \<open>The batching\<close>

lemma append_update_newD [simp]: "newD (append_update u s) = newD s"
  by (simp add: append_update_def)

lemma append_update_concat:
  "concat (plan (append_update u s)) = concat (plan s) @ [u]"
  by (simp add: append_update_def plan_def)

lemma append_update_batched:
  "batched 1000 s \<Longrightarrow> batched 1000 (append_update u s)"
  by (auto simp: append_update_def batched_def ipSetUpdatesLimit_def)

lemma append_update_nonempty: "updates (append_update u s) \<noteq> []"
  by (simp add: append_update_def)

subsection \<open>The search and the loop over old\<close>

lemma sliceContainsMap_None: "sliceContainsMap l m = None \<longleftrightarrow> m \<notin> set l"
  by (induction l) auto

lemma sliceContainsMap_Some:
  "sliceContainsMap l m = Some idx \<Longrightarrow>
     idx < length l \<and> l ! idx = m \<and> m \<notin> set (take idx l)"
  by (induction l arbitrary: idx) (auto split: if_splits)

lemma sliceContainsMap_remove1:
  "sliceContainsMap l m = Some idx \<Longrightarrow> take idx l @ drop (Suc idx) l = remove1 m l"
  by (induction l arbitrary: idx) (auto split: if_splits)

lemma sliceContainsMap_mem: "sliceContainsMap l m = Some idx \<Longrightarrow> m \<in> set l"
  using sliceContainsMap_None [of l m] by auto

lemma old_step_concat:
  "concat (plan (old_step od s)) =
     concat (plan s) @ (if od \<in> set (newD s) then [] else [mk_update DELETE od])"
  by (auto simp: old_step_def plan_def append_update_def sliceContainsMap_None
      split: option.splits dest: sliceContainsMap_mem)

lemma old_step_newD:
  "newD (old_step od s) = remove1 od (newD s)"
  by (auto simp: old_step_def sliceContainsMap_None sliceContainsMap_remove1 remove1_idem
      split: option.splits)

lemma old_step_batched:
  "batched 1000 s \<Longrightarrow> batched 1000 (old_step od s)"
  by (auto simp: old_step_def append_update_batched split: option.splits)
     (simp add: batched_def)

lemma fold_old_step_batched:
  "batched 1000 s \<Longrightarrow> batched 1000 (fold old_step old s)"
  by (induction old arbitrary: s) (simp_all add: old_step_batched)

lemma fold_new_step_batched:
  "batched 1000 s \<Longrightarrow> batched 1000 (fold new_step xs s)"
  by (induction xs arbitrary: s) (simp_all add: new_step_def append_update_batched)

lemma fold_new_step_concat:
  "concat (plan (fold new_step xs s)) = concat (plan s) @ map (mk_update INSERT) xs"
  by (induction xs arbitrary: s) (simp_all add: new_step_def append_update_concat)

lemma fold_old_step_newD:
  "newD (fold old_step old s) = fold remove1 old (newD s)"
  by (induction old arbitrary: s) (simp_all add: old_step_newD)

lemma fold_old_step_concat:
  "concat (plan (fold old_step old s)) =
     concat (plan s) @ map (mk_update DELETE) (unmatched old (newD s))"
  by (induction old arbitrary: s) (simp_all add: old_step_concat old_step_newD remove1_idem)

lemma plan_init: "plan \<lparr>updates = [], updatesBatches = [], newD = xs\<rparr> = [[]]"
  by (simp add: plan_def)

lemma diff_contents_concat:
  "concat (diff_contents old new) =
     map (mk_update DELETE) (unmatched old new) @ map (mk_update INSERT) (fold remove1 old new)"
  unfolding diff_contents_def Let_def plan_def [symmetric]
  by (simp add: fold_new_step_concat fold_old_step_concat fold_old_step_newD plan_init)

lemma diff_contents_batched:
  "\<exists>s::diff_state. batched 1000 s \<and> diff_contents old new = plan s"
proof -
  define s0 where "s0 = \<lparr>updates = [], updatesBatches = [], newD = new\<rparr>"
  define s1 where "s1 = fold old_step old s0"
  define s2 where "s2 = fold new_step (newD s1) s1"
  have "batched 1000 s0" by (simp add: s0_def batched_def)
  then have "batched 1000 s1" unfolding s1_def by (rule fold_old_step_batched)
  then have "batched 1000 s2" unfolding s2_def by (rule fold_new_step_batched)
  moreover have "diff_contents old new = plan s2"
    by (simp add: diff_contents_def Let_def plan_def s0_def s1_def s2_def)
  ultimately show ?thesis by blast
qed

subsection \<open>Duplicate-free inputs\<close>

lemma unmatched_remove1:
  "od \<notin> set old \<Longrightarrow> unmatched old (remove1 od new) = unmatched old new"
proof (induction old arbitrary: new)
  case Nil
  then show ?case by simp
next
  case (Cons x old)
  then have ne: "x \<noteq> od" and od: "od \<notin> set old" by auto
  have mem: "x \<in> set (remove1 od new) \<longleftrightarrow> x \<in> set new"
    using ne by simp
  show ?case
    using Cons.IH [OF od] mem by (simp add: remove1_commute [of x od])
qed

lemma unmatched_distinct:
  "distinct old \<Longrightarrow> unmatched old new = filter (\<lambda>d. d \<notin> set new) old"
proof (induction old arbitrary: new)
  case Nil
  then show ?case by simp
next
  case (Cons od old)
  then have od: "od \<notin> set old" and d: "distinct old" by auto
  have "unmatched (od # old) new = (if od \<in> set new then unmatched old new else od # unmatched old new)"
    by (simp add: unmatched_remove1 [OF od])
  also have "\<dots> = filter (\<lambda>d. d \<notin> set new) (od # old)"
    by (simp add: Cons.IH [OF d])
  finally show ?case .
qed

lemma fold_remove1_distinct:
  "distinct new \<Longrightarrow> fold remove1 old new = filter (\<lambda>d. d \<notin> set old) new"
proof (induction old arbitrary: new)
  case Nil
  then show ?case by simp
next
  case (Cons x old)
  have "remove1 x new = filter (\<lambda>d. x \<noteq> d) new"
    using Cons.prems by (simp add: distinct_remove1_removeAll removeAll_filter_not_eq)
  moreover have "distinct (remove1 x new)" using Cons.prems by simp
  ultimately show ?case using Cons.IH [of "remove1 x new"] by (auto intro: filter_cong)
qed

lemma inj_mk_update: "inj (mk_update a)"
  by (rule injI) (simp add: mk_update_def)

subsection \<open>The shape of a plan\<close>

lemma map_length_const:
  "\<forall>b \<in> set bs. length b = n \<Longrightarrow> map length bs = replicate (length bs) n"
  by (induction bs) simp_all

lemma length_concat_const:
  "\<forall>b \<in> set bs. length b = n \<Longrightarrow> length (concat bs) = length bs * n"
  by (induction bs) simp_all

lemma batched_total:
  "batched n s \<Longrightarrow>
     length (concat (plan s)) = length (updatesBatches s) * n + length (updates s)"
  by (simp add: batched_def plan_def length_concat_const)

lemma batched_sizes:
  assumes n: "0 < n" and b: "batched n s"
  shows "map length (plan s) =
     (if length (concat (plan s)) = 0 then [0]
      else replicate ((length (concat (plan s)) - 1) div n) n @
           [length (concat (plan s)) - ((length (concat (plan s)) - 1) div n) * n])"
proof (cases "updates s = []")
  case True
  with b have "updatesBatches s = []" by (simp add: batched_def)
  with True show ?thesis by (simp add: plan_def)
next
  case False
  define k where "k = length (updatesBatches s)"
  define r where "r = length (updates s)"
  have r: "0 < r" "r \<le> n" using False b by (simp_all add: r_def batched_def)
  have tot: "length (concat (plan s)) = k * n + r"
    using batched_total [OF b] by (simp add: k_def r_def)
  have d0: "(k * n + r - 1) div n = k"
  proof -
    obtain q where q: "r = Suc q" using r by (cases r) auto
    have "k * n + r - 1 = q + k * n" by (simp add: q)
    moreover have "q < n" using r q by simp
    ultimately show ?thesis by simp
  qed
  then have d: "(length (concat (plan s)) - 1) div n = k" by (simp add: tot)
  have ne: "k * n + r \<noteq> 0" using r by simp
  have "map length (plan s) = replicate k n @ [r]"
    using b by (simp add: plan_def k_def r_def batched_def map_length_const)
  then show ?thesis unfolding tot d0 using r by auto
qed

lemma batched_shape:
  assumes b: "batched n s"
  shows "plan s \<noteq> []" "butlast (plan s) = updatesBatches s" "last (plan s) = updates s"
    "map length (butlast (plan s)) = replicate (length (plan s) - 1) n"
    "length (last (plan s)) \<le> n"
  using b by (simp_all add: plan_def batched_def map_length_const)

lemma batched_nonempty_count:
  assumes n: "0 < n" and b: "batched n s"
  shows "length (filter (\<lambda>b. b \<noteq> []) (plan s)) =
           (if updates s = [] then 0 else length (plan s))"
proof -
  have "\<forall>x \<in> set (updatesBatches s). x \<noteq> []" using b n by (auto simp: batched_def)
  then have "filter (\<lambda>b. b \<noteq> []) (updatesBatches s) = updatesBatches s" by simp
  then show ?thesis using b by (auto simp: plan_def batched_def)
qed

lemma batched_ceiling:
  assumes n: "0 < n" and b: "batched n s"
  shows "int (length (filter (\<lambda>b. b \<noteq> []) (plan s))) =
           \<lceil>real (length (concat (plan s))) / real n\<rceil>"
proof (cases "updates s = []")
  case True
  with b have "updatesBatches s = []" by (simp add: batched_def)
  with True show ?thesis by (simp add: plan_def)
next
  case False
  define k where "k = length (updatesBatches s)"
  define r where "r = length (updates s)"
  have r: "0 < r" "r \<le> n" using False b by (simp_all add: r_def batched_def)
  have tot: "length (concat (plan s)) = k * n + r"
    using batched_total [OF b] by (simp add: k_def r_def)
  have cnt: "length (filter (\<lambda>b. b \<noteq> []) (plan s)) = k + 1"
    using batched_nonempty_count [OF n b] False by (simp add: plan_def k_def)
  have "\<lceil>real (k * n + r) / real n\<rceil> = int (k + 1)"
  proof (rule ceiling_unique)
    show "real_of_int (int (k + 1)) - 1 < real (k * n + r) / real n"
      using n r by (simp add: field_simps)
    have "real (k * n + r) \<le> real ((k + 1) * n)"
      using r by (simp only: of_nat_le_iff) simp
    then show "real (k * n + r) / real n \<le> real_of_int (int (k + 1))"
      using n by (simp add: field_simps)
  qed
  then show ?thesis by (simp only: cnt tot)
qed

subsection \<open>Slices that share no storage\<close>

lemma length_elems [simp]: "length (elems h sl) = len sl"
  by (simp add: elems_def)

lemma nth_elems [simp]: "i < len sl \<Longrightarrow> elems h sl ! i = h (ptr sl + i)"
  by (simp add: elems_def)

lemma elems_delete_at:
  assumes "idx < len sl"
  shows "elems (delete_at h sl idx) (sl\<lparr>len := len sl - 1\<rparr>) =
           take idx (elems h sl) @ drop (idx + 1) (elems h sl)"
proof (rule nth_equalityI)
  show "length (elems (delete_at h sl idx) (sl\<lparr>len := len sl - 1\<rparr>)) =
        length (take idx (elems h sl) @ drop (idx + 1) (elems h sl))"
    using assms by simp
next
  fix i
  assume "i < length (elems (delete_at h sl idx) (sl\<lparr>len := len sl - 1\<rparr>))"
  then have i: "i + 1 < len sl" using assms by simp
  show "elems (delete_at h sl idx) (sl\<lparr>len := len sl - 1\<rparr>) ! i =
        (take idx (elems h sl) @ drop (idx + 1) (elems h sl)) ! i"
  proof (cases "i < idx")
    case True
    then show ?thesis using i assms by (simp add: nth_append delete_at_def)
  next
    case False
    then have "idx + 1 + (i - idx) = i + 1" by simp
    then show ?thesis using False i assms by (simp add: nth_append delete_at_def min_def)
  qed
qed

lemma delete_at_outside:
  "a < ptr sl \<or> ptr sl + len sl \<le> a \<Longrightarrow> delete_at h sl idx a = h a"
  by (auto simp: delete_at_def)

lemma append_update_store [simp]:
  "heap (append_update u s) = heap s" "newS (append_update u s) = newS s"
  by (simp_all add: append_update_def)

lemma append_update_same_vars:
  "same_vars sh sv \<Longrightarrow> same_vars (append_update u sh) (append_update u sv)"
  by (simp add: same_vars_def append_update_def)

lemma old_step_store_same_vars:
  assumes "same_vars sh sv"
  shows "same_vars (old_step_store a sh) (old_step (heap sh a) sv)"
proof (cases "sliceContainsMap (newD sv) (heap sh a)")
  case None
  then show ?thesis
    using assms append_update_same_vars [OF assms]
    by (simp add: old_step_store_def old_step_def same_vars_def)
next
  case (Some idx)
  have e: "elems (heap sh) (newS sh) = newD sv" using assms by (simp add: same_vars_def)
  have "idx < len (newS sh)"
    using sliceContainsMap_Some [OF Some] e [symmetric] by simp
  from elems_delete_at [OF this, of "heap sh"] show ?thesis
    using assms Some by (simp add: old_step_store_def old_step_def same_vars_def)
qed

lemma old_step_store_frame:
  "ptr (newS (old_step_store a s)) = ptr (newS s)"
  "len (newS (old_step_store a s)) \<le> len (newS s)"
  "b < ptr (newS s) \<or> ptr (newS s) + len (newS s) \<le> b \<Longrightarrow>
     heap (old_step_store a s) b = heap s b"
  by (auto simp: old_step_store_def Let_def delete_at_outside split: option.splits)

lemma fold_old_step_store_same_vars:
  assumes "\<forall>a \<in> set as. a < ptr (newS sh) \<or> ptr (newS sh) + len (newS sh) \<le> a"
    and "same_vars sh sv"
  shows "same_vars (fold old_step_store as sh) (fold old_step (map (heap sh) as) sv)"
  using assms
proof (induction as arbitrary: sh sv)
  case Nil
  then show ?case by simp
next
  case (Cons a as)
  let ?sh = "old_step_store a sh"
  let ?sv = "old_step (heap sh a) sv"
  have out: "\<forall>b \<in> set as. b < ptr (newS ?sh) \<or> ptr (newS ?sh) + len (newS ?sh) \<le> b"
    using Cons.prems(1) old_step_store_frame(1,2) [of a sh] by fastforce
  have same: "map (heap ?sh) as = map (heap sh) as"
    using Cons.prems(1) by (simp add: old_step_store_frame(3))
  have "same_vars ?sh ?sv" by (rule old_step_store_same_vars [OF Cons.prems(2)])
  from Cons.IH [OF out this] show ?case by (simp add: same)
qed

lemma fold_new_step_same_vars:
  "same_vars sh sv \<Longrightarrow> same_vars (fold new_step xs sh) (fold new_step xs sv)"
proof (induction xs arbitrary: sh sv)
  case Nil
  then show ?case by simp
next
  case (Cons x xs)
  have h: "heap (new_step x sh) = heap sh" "newS (new_step x sh) = newS sh"
    by (simp_all add: new_step_def)
  have "same_vars (new_step x sh) (new_step x sv)"
    unfolding new_step_def by (rule append_update_same_vars [OF Cons.prems])
  from Cons.IH [OF this] show ?case by simp
qed

lemma DiffIPSetDescriptors_store_contents:
  assumes "separate oldS newS0"
  shows "fst (DiffIPSetDescriptors_store h oldS newS0) =
           diff_contents (elems h oldS) (elems h newS0)"
proof -
  define as where "as = map (\<lambda>i. ptr oldS + i) [0..<len oldS]"
  define sh0 :: store_state where
    "sh0 = \<lparr>updates = [], updatesBatches = [], heap = h, newS = newS0\<rparr>"
  define sv0 :: diff_state where
    "sv0 = \<lparr>updates = [], updatesBatches = [], newD = elems h newS0\<rparr>"
  define sh1 where "sh1 = fold old_step_store as sh0"
  define sv1 where "sv1 = fold old_step (elems h oldS) sv0"
  have out: "\<forall>a \<in> set as. a < ptr (newS sh0) \<or> ptr (newS sh0) + len (newS sh0) \<le> a"
    using assms by (auto simp: as_def sh0_def separate_def)
  have 0: "same_vars sh0 sv0" by (simp add: same_vars_def sh0_def sv0_def)
  have m: "map (heap sh0) as = elems h oldS"
    by (simp add: as_def sh0_def elems_def)
  have 1: "same_vars sh1 sv1"
    using fold_old_step_store_same_vars [OF out 0]
    by (simp add: sh1_def sv1_def m)
  then have e: "elems (heap sh1) (newS sh1) = newD sv1" by (simp add: same_vars_def)
  have "same_vars (fold new_step (newD sv1) sh1)
          (fold new_step (newD sv1) sv1)"
    by (rule fold_new_step_same_vars [OF 1])
  then show ?thesis
    by (simp add: DiffIPSetDescriptors_store_def diff_contents_def
        Let_def same_vars_def e
        sh1_def [symmetric] sv1_def [symmetric] sh0_def [symmetric] sv0_def [symmetric]
        as_def [symmetric])
qed

lemma elems_store_of_append:
  "elems (store_of (xs @ ys)) \<lparr>ptr = 0, len = length xs\<rparr> = xs"
  "elems (store_of (xs @ ys)) \<lparr>ptr = length xs, len = length ys\<rparr> = ys"
  by (auto intro!: nth_equalityI simp: store_of_def nth_append)

lemma DiffIPSetDescriptors_contents:
  "DiffIPSetDescriptors old new = diff_contents old new"
proof -
  have "separate \<lparr>ptr = 0, len = length old\<rparr> \<lparr>ptr = length old, len = length new\<rparr>"
    by (simp add: separate_def)
  from DiffIPSetDescriptors_store_contents [OF this, of "store_of (old @ new)"]
  show ?thesis by (simp add: DiffIPSetDescriptors_def elems_store_of_append)
qed

lemma DiffIPSetDescriptors_store_separate:
  assumes "separate oldS newS0"
  shows "fst (DiffIPSetDescriptors_store h oldS newS0) =
           DiffIPSetDescriptors (elems h oldS) (elems h newS0)"
  using DiffIPSetDescriptors_store_contents [OF assms]
  by (simp add: DiffIPSetDescriptors_contents)

subsection \<open>The operations\<close>

lemma DiffIPSetDescriptors_plan:
  "\<exists>s::diff_state. batched 1000 s \<and> DiffIPSetDescriptors old new = plan s"
  using diff_contents_batched [of old new]
  by (simp add: DiffIPSetDescriptors_contents)

lemma DiffIPSetDescriptors_concat:
  "concat (DiffIPSetDescriptors old new) =
     map (mk_update DELETE) (unmatched old new) @
     map (mk_update INSERT) (fold remove1 old new)"
  by (simp add: DiffIPSetDescriptors_contents diff_contents_concat)

lemma Action_mk_update [simp]: "Action (mk_update a d) = a"
  by (simp add: mk_update_def)

lemma distinct_updates:
  assumes "distinct ds" "distinct ns"
  shows "distinct (map (mk_update DELETE) ds @ map (mk_update INSERT) ns)"
proof -
  have "mk_update DELETE x \<noteq> mk_update INSERT y" for x y
    by (simp add: mk_update_def)
  then have "set (map (mk_update DELETE) ds) \<inter> set (map (mk_update INSERT) ns) = {}"
    by auto
  moreover have "distinct (map (mk_update a) xs)" if "distinct xs" for a xs
    using that by (simp add: distinct_map inj_on_subset [OF inj_mk_update])
  ultimately show ?thesis using assms by simp
qed

lemma length_ipv4_hosts [simp]: "length (ipv4_hosts n) = n"
  by (simp add: ipv4_hosts_def)

lemma DiffIPSetDescriptors_sizes:
  "map length (DiffIPSetDescriptors old new) =
     (if length (concat (DiffIPSetDescriptors old new)) = 0 then [0]
      else replicate ((length (concat (DiffIPSetDescriptors old new)) - 1) div 1000) 1000 @
           [length (concat (DiffIPSetDescriptors old new)) -
            ((length (concat (DiffIPSetDescriptors old new)) - 1) div 1000) * 1000])"
proof -
  obtain s :: diff_state where s: "batched 1000 s" "DiffIPSetDescriptors old new = plan s"
    using DiffIPSetDescriptors_plan by blast
  show ?thesis unfolding s(2) by (rule batched_sizes [OF _ s(1)]) simp
qed

lemma DiffIPSetDescriptors_total_Nil:
  "length (concat (DiffIPSetDescriptors [] new)) = length new"
  by (simp add: DiffIPSetDescriptors_concat)

lemma count_list_remove1:
  "count_list (remove1 x xs) y = count_list xs y - (if x = y \<and> x \<in> set xs then 1 else 0)"
  by (induction xs) auto

lemma unmatched_same: "unmatched S S = []"
  by (induction S) simp_all

lemma fold_remove1_same: "fold remove1 S S = []"
  by (induction S) simp_all

lemma DiffIPSetDescriptors_same: "DiffIPSetDescriptors S S = [[]]"
proof -
  have "map length (DiffIPSetDescriptors S S) = [0]"
    by (simp add: DiffIPSetDescriptors_sizes DiffIPSetDescriptors_concat unmatched_same
        fold_remove1_same)
  then show ?thesis by (auto simp: map_eq_Cons_conv)
qed

text \<open>
  With duplicates in the inputs, each record of \<open>old\<close> uses up at most one equal record
  of \<open>new\<close>: a record is deleted as often as \<open>old\<close> holds it more often than \<open>new\<close>, and
  inserted as often as \<open>new\<close> holds it more often than \<open>old\<close>.
\<close>

lemma count_list_fold_remove1:
  "count_list (fold remove1 old new) d = count_list new d - count_list old d"
proof (induction old arbitrary: new)
  case Nil
  then show ?case by simp
next
  case (Cons x old)
  have "count_list (remove1 x new) d - count_list old d =
        count_list new d - count_list (x # old) d"
    by (auto simp: count_list_remove1)
  then show ?case by (simp add: Cons.IH del: count_list.simps)
qed

lemma count_list_unmatched:
  "count_list (unmatched old new) d = count_list old d - count_list new d"
proof (induction old arbitrary: new)
  case Nil
  then show ?case by simp
next
  case (Cons x old)
  show ?case
  proof (cases "x \<in> set new")
    case True
    then have "0 < count_list new x"
      using count_list_0_iff [of new x] by (cases "count_list new x") auto
    then show ?thesis using True by (auto simp: Cons.IH count_list_remove1)
  next
    case False
    then have "x = d \<Longrightarrow> count_list new d = 0" by simp
    then show ?thesis using False by (auto simp: Cons.IH)
  qed
qed

lemma count_list_map_mk_update:
  "count_list (map (mk_update a) xs) (mk_update b d) = (if a = b then count_list xs d else 0)"
proof (induction xs)
  case Nil
  then show ?case by simp
next
  case (Cons x xs)
  have "mk_update a x = mk_update b d \<longleftrightarrow> a = b \<and> x = d"
    by (auto simp: mk_update_def)
  with Cons show ?case by (cases "a = b") simp_all
qed

lemma DiffIPSetDescriptors_counts:
  "count_list (concat (DiffIPSetDescriptors old new)) (mk_update DELETE d) =
     count_list old d - count_list new d"
  "count_list (concat (DiffIPSetDescriptors old new)) (mk_update INSERT d) =
     count_list new d - count_list old d"
  by (simp_all add: DiffIPSetDescriptors_concat count_list_map_mk_update
      count_list_unmatched count_list_fold_remove1)

subsection \<open>Slices that may share storage\<close>

text \<open>
  Whatever the two slices share, the plan is a batched one, and its operations are
  deletes followed by inserts.
\<close>

lemma old_step_store_batched:
  "batched 1000 s \<Longrightarrow> batched 1000 (old_step_store a s)"
  by (auto simp: old_step_store_def Let_def append_update_batched split: option.splits)
     (simp add: batched_def)

lemma fold_old_step_store_batched:
  "batched 1000 s \<Longrightarrow> batched 1000 (fold old_step_store as s)"
  by (induction as arbitrary: s) (simp_all add: old_step_store_batched)

lemma old_step_store_concat:
  "\<exists>ds. concat (plan (old_step_store a s)) = concat (plan s) @ map (mk_update DELETE) ds"
proof (cases "sliceContainsMap (elems (heap s) (newS s)) (heap s a)")
  case None
  then have "concat (plan (old_step_store a s)) =
      concat (plan s) @ map (mk_update DELETE) [heap s a]"
    by (simp add: old_step_store_def append_update_concat)
  then show ?thesis by blast
next
  case (Some idx)
  then have "concat (plan (old_step_store a s)) = concat (plan s) @ map (mk_update DELETE) []"
    by (simp add: old_step_store_def plan_def)
  then show ?thesis by blast
qed

lemma fold_old_step_store_concat:
  "\<exists>ds. concat (plan (fold old_step_store as s)) =
          concat (plan s) @ map (mk_update DELETE) ds"
proof (induction as arbitrary: s)
  case Nil
  have "concat (plan s) = concat (plan s) @ map (mk_update DELETE) []" by simp
  then show ?case by (simp only: fold_simps id_apply) blast
next
  case (Cons a as)
  obtain ds where 1: "concat (plan (old_step_store a s)) =
      concat (plan s) @ map (mk_update DELETE) ds"
    using old_step_store_concat by blast
  obtain es where 2: "concat (plan (fold old_step_store as (old_step_store a s))) =
      concat (plan (old_step_store a s)) @ map (mk_update DELETE) es"
    using Cons.IH by blast
  have "concat (plan (fold old_step_store (a # as) s)) =
      concat (plan s) @ map (mk_update DELETE) (ds @ es)"
    by (simp add: 1 2)
  then show ?case by blast
qed

lemma DiffIPSetDescriptors_store_shape:
  "\<exists>(s::store_state) ds ns. batched 1000 s \<and> fst (DiffIPSetDescriptors_store h oldS newS0) = plan s \<and>
     concat (plan s) = map (mk_update DELETE) ds @ map (mk_update INSERT) ns"
proof -
  define as where "as = map (\<lambda>i. ptr oldS + i) [0..<len oldS]"
  define s0 :: store_state where
    "s0 = \<lparr>updates = [], updatesBatches = [], heap = h, newS = newS0\<rparr>"
  define s1 where "s1 = fold old_step_store as s0"
  define s2 where "s2 = fold new_step (elems (heap s1) (newS s1)) s1"
  have "batched 1000 s0" by (simp add: s0_def batched_def)
  then have "batched 1000 s1" unfolding s1_def by (rule fold_old_step_store_batched)
  then have b: "batched 1000 s2" unfolding s2_def by (rule fold_new_step_batched)
  have p: "fst (DiffIPSetDescriptors_store h oldS newS0) = plan s2"
    by (simp add: DiffIPSetDescriptors_store_def Let_def plan_def
        s0_def s1_def s2_def as_def)
  obtain ds where "concat (plan s1) = concat (plan s0) @ map (mk_update DELETE) ds"
    unfolding s1_def using fold_old_step_store_concat by blast
  moreover have "concat (plan s0) = []" by (simp add: s0_def plan_def)
  ultimately have "concat (plan s2) =
      map (mk_update DELETE) ds @ map (mk_update INSERT) (elems (heap s1) (newS s1))"
    unfolding s2_def by (simp only: fold_new_step_concat append_Nil)
  with b p show ?thesis by blast
qed

subsection \<open>The first record of old\<close>

text \<open>
  When the first record of \<open>old\<close> has an equal in \<open>new\<close>, any two slices given, the call
  returns what it returns for the rest of \<open>old\<close> and \<open>new\<close> cut at the first equal record.
\<close>

lemma DiffIPSetDescriptors_store_first_match:
  assumes l: "0 < len oldS"
    and i: "sliceContainsMap (elems h newS0) (h (ptr oldS)) = Some idx"
  shows "DiffIPSetDescriptors_store h oldS newS0 =
           DiffIPSetDescriptors_store (delete_at h newS0 idx)
             \<lparr>ptr = ptr oldS + 1, len = len oldS - 1\<rparr> (newS0\<lparr>len := len newS0 - 1\<rparr>)"
proof -
  obtain n where n: "len oldS = Suc n" using l by (cases "len oldS") auto
  have "[0..<Suc n] = 0 # map Suc [0..<n]"
    by (simp add: upt_conv_Cons map_Suc_upt del: upt_Suc)
  then have as: "map (\<lambda>i. ptr oldS + i) [0..<Suc n] =
      ptr oldS # map (\<lambda>i. ptr oldS + 1 + i) [0..<n]"
    by (simp add: comp_def del: upt_Suc)
  have step: "old_step_store (ptr oldS)
        \<lparr>updates = [], updatesBatches = [], heap = h, newS = newS0\<rparr> =
      \<lparr>updates = [], updatesBatches = [], heap = delete_at h newS0 idx,
       newS = newS0\<lparr>len := len newS0 - 1\<rparr>\<rparr>"
    by (simp add: old_step_store_def i)
  show ?thesis
    unfolding DiffIPSetDescriptors_store_def n as
    by (simp add: step del: upt_Suc)
qed

lemma DiffIPSetDescriptors_Cons_match:
  assumes "od \<in> set new"
  shows "DiffIPSetDescriptors (od # old) new = DiffIPSetDescriptors old (remove1 od new)"
proof -
  from assms obtain idx where idx: "sliceContainsMap new od = Some idx"
    using sliceContainsMap_None [of new od] by auto
  have "old_step od \<lparr>updates = [], updatesBatches = [], newD = new\<rparr> =
      \<lparr>updates = [], updatesBatches = [], newD = remove1 od new\<rparr>"
    using sliceContainsMap_remove1 [OF idx] by (simp add: old_step_def idx)
  then show ?thesis
    by (simp add: DiffIPSetDescriptors_contents diff_contents_def)
qed

lemma DiffIPSetDescriptors_Cons_no_match:
  assumes "od \<notin> set new"
  shows "concat (DiffIPSetDescriptors (od # old) new) =
           mk_update DELETE od # concat (DiffIPSetDescriptors old new)"
  using assms by (simp add: DiffIPSetDescriptors_concat remove1_idem)

lemma DiffIPSetDescriptors_concat_distinct:
  assumes "distinct old" and "distinct new"
  shows "concat (DiffIPSetDescriptors old new) =
           map (mk_update DELETE) (filter (\<lambda>d. d \<notin> set new) old) @
           map (mk_update INSERT) (filter (\<lambda>d. d \<notin> set old) new)
         \<and> distinct (concat (DiffIPSetDescriptors old new))"
proof -
  have eq: "concat (DiffIPSetDescriptors old new) =
           map (mk_update DELETE) (filter (\<lambda>d. d \<notin> set new) old) @
           map (mk_update INSERT) (filter (\<lambda>d. d \<notin> set old) new)"
    using assms
    by (simp only: DiffIPSetDescriptors_concat unmatched_distinct fold_remove1_distinct)
  have "distinct (filter (\<lambda>d. d \<notin> set new) old)" "distinct (filter (\<lambda>d. d \<notin> set old) new)"
    using assms by simp_all
  then show ?thesis unfolding eq by (simp only: distinct_updates simp_thms)
qed

subsection \<open>The loop over the batches\<close>

lemma all_succeed_Cons:
  "all_succeed call i (b # bs) w \<longleftrightarrow>
     fst (call i b w) = None \<and> all_succeed call i bs (snd (call i b w))"
proof -
  have "(\<forall>k < Suc (length bs). P k) \<longleftrightarrow> P 0 \<and> (\<forall>k < length bs. P (Suc k))" for P
    by (auto simp: less_Suc_eq_0_disj)
  then show ?thesis by (simp add: all_succeed_def remote_after_def)
qed

lemma update_batches_all_succeed:
  "all_succeed call i bs w \<Longrightarrow> update_batches call i bs w = (None, remote_after call i bs w)"
proof (induction bs arbitrary: w)
  case Nil
  then show ?case by (simp add: remote_after_def)
next
  case (Cons b bs)
  then have b: "fst (call i b w) = None" and rest: "all_succeed call i bs (snd (call i b w))"
    by (simp_all add: all_succeed_Cons)
  obtain r v where c: "call i b w = (r, v)" by (cases "call i b w")
  with b rest Cons.IH [of v] show ?case by (simp add: remote_after_def)
qed

lemma update_batches_first_failure:
  assumes "all_succeed call i pre w"
    and "call i b (remote_after call i pre w) = (Some e, v)"
  shows "update_batches call i (pre @ b # post) w = (Some (Msg ''updating WAF IPSet: '' e), v)"
  using assms
proof (induction pre arbitrary: w)
  case Nil
  then show ?case by (simp add: remote_after_def)
next
  case (Cons p pre)
  then have p: "fst (call i p w) = None" and rest: "all_succeed call i pre (snd (call i p w))"
    by (simp_all add: all_succeed_Cons)
  obtain r u where c: "call i p w = (r, u)" by (cases "call i p w")
  have "call i b (remote_after call i pre u) = (Some e, v)"
    using Cons.prems(2) c by (simp add: remote_after_def)
  with p rest c Cons.IH [of u] show ?case by simp
qed

section \<open>The claims\<close>

text \<open>
  \<open>DiffIPSetDescriptors_store\<close> is the function on any two slices of a store;
  \<open>DiffIPSetDescriptors old new\<close> is its plan for two slices of their own that hold \<open>old\<close>
  and \<open>new\<close>. Lemma \<open>DiffIPSetDescriptors_store_separate\<close> shows that any two slices that
  share no cell give the plan of their contents, and lemma
  \<open>DiffIPSetDescriptors_store_shape\<close> gives the batch sizes and the order of deletes and
  inserts also for slices that share cells.
\<close>

text \<open>
  C1 (completeness of the diff), as stated, fails when one duplicate-free slice of four
  records is passed for both arguments. Every record is in \<open>old\<close> and in \<open>new\<close>, so no
  operation is due. The first iteration finds the first record at index 0 of \<open>newD\<close>
  and cuts it out in place, which moves the other three one cell down in the array
  that \<open>oldD\<close> views as well. The second iteration therefore reads the third record
  and the third iteration the fourth, and each finds its record in \<open>newD\<close> and cuts it
  out; the last iteration reads the fourth record again, finds it no more in what is
  left of \<open>newD\<close> (the second record) and emits its delete; the second loop emits the
  insert of the second record.
\<close>

theorem DiffIPSetDescriptors_complete_same_slice_counterexample:
  "distinct (elems (store_of [\<lparr>d_type = ''IPV4'', d_value = ''1.2.3.0/24''\<rparr>,
                              \<lparr>d_type = ''IPV4'', d_value = ''5.6.7.0/24''\<rparr>,
                              \<lparr>d_type = ''IPV4'', d_value = ''10.0.0.0/8''\<rparr>,
                              \<lparr>d_type = ''IPV6'', d_value = ''2001:db8::/32''\<rparr>])
                    \<lparr>ptr = 0, len = 4\<rparr>) \<and>
   concat (fst (DiffIPSetDescriptors_store
      (store_of [\<lparr>d_type = ''IPV4'', d_value = ''1.2.3.0/24''\<rparr>,
                 \<lparr>d_type = ''IPV4'', d_value = ''5.6.7.0/24''\<rparr>,
                 \<lparr>d_type = ''IPV4'', d_value = ''10.0.0.0/8''\<rparr>,
                 \<lparr>d_type = ''IPV6'', d_value = ''2001:db8::/32''\<rparr>])
      \<lparr>ptr = 0, len = 4\<rparr> \<lparr>ptr = 0, len = 4\<rparr>)) =
     [\<lparr>Action = DELETE, Descriptor = \<lparr>Type = ''IPV6'', Value = ''2001:db8::/32''\<rparr>\<rparr>,
      \<lparr>Action = INSERT, Descriptor = \<lparr>Type = ''IPV4'', Value = ''5.6.7.0/24''\<rparr>\<rparr>]"
  by code_simp

text \<open>
  C1, amended. For duplicate-free lists \<open>old\<close> and \<open>new\<close> held in two slices that share no
  storage, the operations of all batches of the plan, concatenated, are: one delete
  for each record of \<open>old\<close> that is not in \<open>new\<close>, then one insert for each record of \<open>new\<close>
  that is not in \<open>old\<close>; nothing else, and no operation twice.
\<close>

theorem DiffIPSetDescriptors_complete_separate:
  assumes "separate oldS newS0" and "elems h oldS = old" and "elems h newS0 = new"
    and "distinct old" and "distinct new"
  shows "concat (fst (DiffIPSetDescriptors_store h oldS newS0)) =
           map (mk_update DELETE) (filter (\<lambda>d. d \<notin> set new) old) @
           map (mk_update INSERT) (filter (\<lambda>d. d \<notin> set old) new)
         \<and> distinct (concat (fst (DiffIPSetDescriptors_store h oldS newS0)))
         \<and> concat (DiffIPSetDescriptors old new) =
           map (mk_update DELETE) (filter (\<lambda>d. d \<notin> set new) old) @
           map (mk_update INSERT) (filter (\<lambda>d. d \<notin> set old) new)
         \<and> distinct (concat (DiffIPSetDescriptors old new))"
proof -
  have "fst (DiffIPSetDescriptors_store h oldS newS0) = DiffIPSetDescriptors old new"
    using DiffIPSetDescriptors_store_separate [OF assms(1), of h] assms(2,3) by simp
  moreover note c = DiffIPSetDescriptors_concat_distinct [OF assms(4,5)]
  ultimately show ?thesis
    using c [THEN conjunct1] c [THEN conjunct2] by (intro conjI) (simp_all only:)
qed

theorem DiffIPSetDescriptors_complete_separate_witness:
  "separate \<lparr>ptr = 0, len = 2\<rparr> \<lparr>ptr = 2, len = 2\<rparr> \<and>
   elems (store_of [\<lparr>d_type = ''IPV4'', d_value = ''1.2.3.0/24''\<rparr>,
                    \<lparr>d_type = ''IPV4'', d_value = ''10.0.0.0/8''\<rparr>,
                    \<lparr>d_type = ''IPV4'', d_value = ''10.0.0.0/8''\<rparr>,
                    \<lparr>d_type = ''IPV4'', d_value = ''5.6.7.0/24''\<rparr>]) \<lparr>ptr = 0, len = 2\<rparr> =
     [\<lparr>d_type = ''IPV4'', d_value = ''1.2.3.0/24''\<rparr>,
      \<lparr>d_type = ''IPV4'', d_value = ''10.0.0.0/8''\<rparr>] \<and>
   elems (store_of [\<lparr>d_type = ''IPV4'', d_value = ''1.2.3.0/24''\<rparr>,
                    \<lparr>d_type = ''IPV4'', d_value = ''10.0.0.0/8''\<rparr>,
                    \<lparr>d_type = ''IPV4'', d_value = ''10.0.0.0/8''\<rparr>,
                    \<lparr>d_type = ''IPV4'', d_value = ''5.6.7.0/24''\<rparr>]) \<lparr>ptr = 2, len = 2\<rparr> =
     [\<lparr>d_type = ''IPV4'', d_value = ''10.0.0.0/8''\<rparr>,
      \<lparr>d_type = ''IPV4'', d_value = ''5.6.7.0/24''\<rparr>] \<and>
   concat (fst (DiffIPSetDescriptors_store
      (store_of [\<lparr>d_type = ''IPV4'', d_value = ''1.2.3.0/24''\<rparr>,
                 \<lparr>d_type = ''IPV4'', d_value = ''10.0.0.0/8''\<rparr>,
                 \<lparr>d_type = ''IPV4'', d_value = ''10.0.0.0/8''\<rparr>,
                 \<lparr>d_type = ''IPV4'', d_value = ''5.6.7.0/24''\<rparr>])
      \<lparr>ptr = 0, len = 2\<rparr> \<lparr>ptr = 2, len = 2\<rparr>)) =
     [\<lparr>Action = DELETE, Descriptor = \<lparr>Type = ''IPV4'', Value = ''1.2.3.0/24''\<rparr>\<rparr>,
      \<lparr>Action = INSERT, Descriptor = \<lparr>Type = ''IPV4'', Value = ''5.6.7.0/24''\<rparr>\<rparr>]"
proof -
  let ?h = "store_of [\<lparr>d_type = ''IPV4'', d_value = ''1.2.3.0/24''\<rparr>,
                 \<lparr>d_type = ''IPV4'', d_value = ''10.0.0.0/8''\<rparr>,
                 \<lparr>d_type = ''IPV4'', d_value = ''10.0.0.0/8''\<rparr>,
                 \<lparr>d_type = ''IPV4'', d_value = ''5.6.7.0/24''\<rparr>]"
  let ?old = "[\<lparr>d_type = ''IPV4'', d_value = ''1.2.3.0/24''\<rparr>,
               \<lparr>d_type = ''IPV4'', d_value = ''10.0.0.0/8''\<rparr>]"
  let ?new = "[\<lparr>d_type = ''IPV4'', d_value = ''10.0.0.0/8''\<rparr>,
               \<lparr>d_type = ''IPV4'', d_value = ''5.6.7.0/24''\<rparr>]"
  have s: "separate \<lparr>ptr = 0, len = 2\<rparr> \<lparr>ptr = 2, len = 2\<rparr>"
    by (simp add: separate_def)
  have o: "elems ?h \<lparr>ptr = 0, len = 2\<rparr> = ?old" by code_simp
  have n: "elems ?h \<lparr>ptr = 2, len = 2\<rparr> = ?new" by code_simp
  have d: "distinct ?old" "distinct ?new" by simp_all
  from DiffIPSetDescriptors_complete_separate [OF s o n d] s o n
  show ?thesis by (simp add: mk_update_def)
qed

text \<open>
  C2 (batch size bound). For every pair of inputs the plan has at least one batch, every
  batch but the last holds exactly \<open>ipSetUpdatesLimit = 1000\<close> operations, and the last
  holds between 0 and 1000.
\<close>

theorem DiffIPSetDescriptors_batch_bound:
  "DiffIPSetDescriptors old new \<noteq> [] \<and>
   map length (butlast (DiffIPSetDescriptors old new)) =
     replicate (length (DiffIPSetDescriptors old new) - 1) (nat ipSetUpdatesLimit) \<and>
   length (last (DiffIPSetDescriptors old new)) \<le> nat ipSetUpdatesLimit"
proof -
  obtain s :: diff_state where s: "batched 1000 s" "DiffIPSetDescriptors old new = plan s"
    using DiffIPSetDescriptors_plan by blast
  show ?thesis
    using batched_shape [OF s(1)] by (simp add: s(2) ipSetUpdatesLimit_def)
qed

text \<open>
  C3 (ordering). In the concatenation of all batches, every delete stands before every
  insert: a position holding a delete is smaller than a position holding an insert.
\<close>

theorem DiffIPSetDescriptors_deletes_first:
  assumes "i < length (concat (DiffIPSetDescriptors old new))"
    and "j < length (concat (DiffIPSetDescriptors old new))"
    and "Action (concat (DiffIPSetDescriptors old new) ! i) = DELETE"
    and "Action (concat (DiffIPSetDescriptors old new) ! j) = INSERT"
  shows "i < j"
proof -
  define ds where "ds = unmatched old new"
  define ns where "ns = fold remove1 old new"
  have c: "concat (DiffIPSetDescriptors old new) =
      map (mk_update DELETE) ds @ map (mk_update INSERT) ns"
    by (simp add: DiffIPSetDescriptors_concat ds_def ns_def)
  have "i < length ds"
  proof (rule ccontr)
    assume "\<not> i < length ds"
    then have "Action (concat (DiffIPSetDescriptors old new) ! i) = INSERT"
      using assms(1) by (simp add: c nth_append)
    with assms(3) show False by simp
  qed
  moreover have "\<not> j < length ds"
  proof
    assume "j < length ds"
    then have "Action (concat (DiffIPSetDescriptors old new) ! j) = DELETE"
      by (simp add: c nth_append)
    with assms(4) show False by simp
  qed
  ultimately show ?thesis by simp
qed

theorem DiffIPSetDescriptors_deletes_first_witness:
  "0 < length (concat (DiffIPSetDescriptors
         [\<lparr>d_type = ''IPV4'', d_value = ''1.2.3.0/24''\<rparr>]
         [\<lparr>d_type = ''IPV4'', d_value = ''5.6.7.0/24''\<rparr>])) \<and>
   1 < length (concat (DiffIPSetDescriptors
         [\<lparr>d_type = ''IPV4'', d_value = ''1.2.3.0/24''\<rparr>]
         [\<lparr>d_type = ''IPV4'', d_value = ''5.6.7.0/24''\<rparr>])) \<and>
   Action (concat (DiffIPSetDescriptors
         [\<lparr>d_type = ''IPV4'', d_value = ''1.2.3.0/24''\<rparr>]
         [\<lparr>d_type = ''IPV4'', d_value = ''5.6.7.0/24''\<rparr>]) ! 0) = DELETE \<and>
   Action (concat (DiffIPSetDescriptors
         [\<lparr>d_type = ''IPV4'', d_value = ''1.2.3.0/24''\<rparr>]
         [\<lparr>d_type = ''IPV4'', d_value = ''5.6.7.0/24''\<rparr>]) ! 1) = INSERT \<and>
   (0::nat) < 1"
  using DiffIPSetDescriptors_deletes_first
    [of 0 "[\<lparr>d_type = ''IPV4'', d_value = ''1.2.3.0/24''\<rparr>]"
        "[\<lparr>d_type = ''IPV4'', d_value = ''5.6.7.0/24''\<rparr>]" 1]
  by (simp add: DiffIPSetDescriptors_concat)

text \<open>
  C4 (no-op diff), as stated, fails when the call is \<open>DiffIPSetDescriptors(S, S)\<close> with
  one slice \<open>S\<close> of three distinct records passed for both arguments. The first
  iteration finds \<open>S[0]\<close> at index 0 of \<open>newD\<close> and cuts it out in place, which moves the
  second and third record one cell down in the array that \<open>oldD\<close> views as well. The
  second iteration therefore reads the third record, finds it at index 1 and cuts it
  out; the third iteration reads the third record again, finds it no more in what is
  left of \<open>newD\<close> (the second record) and emits its delete; the second loop emits the
  insert of the second record.
\<close>

theorem DiffIPSetDescriptors_same_slice_counterexample:
  "elems (store_of [\<lparr>d_type = ''IPV4'', d_value = ''1.2.3.0/24''\<rparr>,
                    \<lparr>d_type = ''IPV4'', d_value = ''5.6.7.0/24''\<rparr>,
                    \<lparr>d_type = ''IPV4'', d_value = ''10.0.0.0/8''\<rparr>]) \<lparr>ptr = 0, len = 3\<rparr> =
     [\<lparr>d_type = ''IPV4'', d_value = ''1.2.3.0/24''\<rparr>,
      \<lparr>d_type = ''IPV4'', d_value = ''5.6.7.0/24''\<rparr>,
      \<lparr>d_type = ''IPV4'', d_value = ''10.0.0.0/8''\<rparr>] \<and>
   fst (DiffIPSetDescriptors_store
      (store_of [\<lparr>d_type = ''IPV4'', d_value = ''1.2.3.0/24''\<rparr>,
                 \<lparr>d_type = ''IPV4'', d_value = ''5.6.7.0/24''\<rparr>,
                 \<lparr>d_type = ''IPV4'', d_value = ''10.0.0.0/8''\<rparr>])
      \<lparr>ptr = 0, len = 3\<rparr> \<lparr>ptr = 0, len = 3\<rparr>) =
     [[\<lparr>Action = DELETE, Descriptor = \<lparr>Type = ''IPV4'', Value = ''10.0.0.0/8''\<rparr>\<rparr>,
       \<lparr>Action = INSERT, Descriptor = \<lparr>Type = ''IPV4'', Value = ''5.6.7.0/24''\<rparr>\<rparr>]]"
  by code_simp

text \<open>
  C4, amended. For every list \<open>S\<close>, \<open>DiffIPSetDescriptors\<close> called with two slices that
  both hold \<open>S\<close> and share no storage returns exactly one batch, and that batch is empty.
\<close>

theorem DiffIPSetDescriptors_noop:
  assumes "separate oldS newS0" and "elems h oldS = S" and "elems h newS0 = S"
  shows "fst (DiffIPSetDescriptors_store h oldS newS0) = [[]] \<and> DiffIPSetDescriptors S S = [[]]"
  using DiffIPSetDescriptors_store_separate [OF assms(1), of h] assms(2,3)
  by (simp add: DiffIPSetDescriptors_same)

theorem DiffIPSetDescriptors_noop_witness:
  "separate \<lparr>ptr = 0, len = 3\<rparr> \<lparr>ptr = 3, len = 3\<rparr> \<and>
   elems (store_of [\<lparr>d_type = ''IPV4'', d_value = ''1.2.3.0/24''\<rparr>,
                    \<lparr>d_type = ''IPV4'', d_value = ''5.6.7.0/24''\<rparr>,
                    \<lparr>d_type = ''IPV4'', d_value = ''10.0.0.0/8''\<rparr>,
                    \<lparr>d_type = ''IPV4'', d_value = ''1.2.3.0/24''\<rparr>,
                    \<lparr>d_type = ''IPV4'', d_value = ''5.6.7.0/24''\<rparr>,
                    \<lparr>d_type = ''IPV4'', d_value = ''10.0.0.0/8''\<rparr>]) \<lparr>ptr = 0, len = 3\<rparr> =
     [\<lparr>d_type = ''IPV4'', d_value = ''1.2.3.0/24''\<rparr>,
      \<lparr>d_type = ''IPV4'', d_value = ''5.6.7.0/24''\<rparr>,
      \<lparr>d_type = ''IPV4'', d_value = ''10.0.0.0/8''\<rparr>] \<and>
   elems (store_of [\<lparr>d_type = ''IPV4'', d_value = ''1.2.3.0/24''\<rparr>,
                    \<lparr>d_type = ''IPV4'', d_value = ''5.6.7.0/24''\<rparr>,
                    \<lparr>d_type = ''IPV4'', d_value = ''10.0.0.0/8''\<rparr>,
                    \<lparr>d_type = ''IPV4'', d_value = ''1.2.3.0/24''\<rparr>,
                    \<lparr>d_type = ''IPV4'', d_value = ''5.6.7.0/24''\<rparr>,
                    \<lparr>d_type = ''IPV4'', d_value = ''10.0.0.0/8''\<rparr>]) \<lparr>ptr = 3, len = 3\<rparr> =
     [\<lparr>d_type = ''IPV4'', d_value = ''1.2.3.0/24''\<rparr>,
      \<lparr>d_type = ''IPV4'', d_value = ''5.6.7.0/24''\<rparr>,
      \<lparr>d_type = ''IPV4'', d_value = ''10.0.0.0/8''\<rparr>] \<and>
   fst (DiffIPSetDescriptors_store
      (store_of [\<lparr>d_type = ''IPV4'', d_value = ''1.2.3.0/24''\<rparr>,
                 \<lparr>d_type = ''IPV4'', d_value = ''5.6.7.0/24''\<rparr>,
                 \<lparr>d_type = ''IPV4'', d_value = ''10.0.0.0/8''\<rparr>,
                 \<lparr>d_type = ''IPV4'', d_value = ''1.2.3.0/24''\<rparr>,
                 \<lparr>d_type = ''IPV4'', d_value = ''5.6.7.0/24''\<rparr>,
                 \<lparr>d_type = ''IPV4'', d_value = ''10.0.0.0/8''\<rparr>])
      \<lparr>ptr = 0, len = 3\<rparr> \<lparr>ptr = 3, len = 3\<rparr>) = [[]]"
proof -
  let ?h = "store_of [\<lparr>d_type = ''IPV4'', d_value = ''1.2.3.0/24''\<rparr>,
                 \<lparr>d_type = ''IPV4'', d_value = ''5.6.7.0/24''\<rparr>,
                 \<lparr>d_type = ''IPV4'', d_value = ''10.0.0.0/8''\<rparr>,
                 \<lparr>d_type = ''IPV4'', d_value = ''1.2.3.0/24''\<rparr>,
                 \<lparr>d_type = ''IPV4'', d_value = ''5.6.7.0/24''\<rparr>,
                 \<lparr>d_type = ''IPV4'', d_value = ''10.0.0.0/8''\<rparr>]"
  have s: "separate \<lparr>ptr = 0, len = 3\<rparr> \<lparr>ptr = 3, len = 3\<rparr>"
    by (simp add: separate_def)
  have o: "elems ?h \<lparr>ptr = 0, len = 3\<rparr> =
     [\<lparr>d_type = ''IPV4'', d_value = ''1.2.3.0/24''\<rparr>,
      \<lparr>d_type = ''IPV4'', d_value = ''5.6.7.0/24''\<rparr>,
      \<lparr>d_type = ''IPV4'', d_value = ''10.0.0.0/8''\<rparr>]"
    by code_simp
  have n: "elems ?h \<lparr>ptr = 3, len = 3\<rparr> =
     [\<lparr>d_type = ''IPV4'', d_value = ''1.2.3.0/24''\<rparr>,
      \<lparr>d_type = ''IPV4'', d_value = ''5.6.7.0/24''\<rparr>,
      \<lparr>d_type = ''IPV4'', d_value = ''10.0.0.0/8''\<rparr>]"
    by code_simp
  from DiffIPSetDescriptors_noop [OF s o n] s o n show ?thesis by simp
qed

text \<open>
  C5 (batch count). The number of non-empty batches is the total number of operations
  divided by \<open>ipSetUpdatesLimit = 1000\<close>, rounded up; and with \<open>old\<close> empty and 2500
  records in \<open>new\<close> the batches have the sizes 1000, 1000 and 500.
\<close>

theorem DiffIPSetDescriptors_batch_count:
  "int (length (filter (\<lambda>b. b \<noteq> []) (DiffIPSetDescriptors old new))) =
     \<lceil>real (length (concat (DiffIPSetDescriptors old new))) / real_of_int ipSetUpdatesLimit\<rceil>
   \<and> (length ds = 2500 \<longrightarrow> map length (DiffIPSetDescriptors [] ds) = [1000, 1000, 500])"
proof
  obtain s :: diff_state where s: "batched 1000 s" "DiffIPSetDescriptors old new = plan s"
    using DiffIPSetDescriptors_plan by blast
  show "int (length (filter (\<lambda>b. b \<noteq> []) (DiffIPSetDescriptors old new))) =
     \<lceil>real (length (concat (DiffIPSetDescriptors old new))) / real_of_int ipSetUpdatesLimit\<rceil>"
    using batched_ceiling [OF _ s(1)] by (simp add: s(2) ipSetUpdatesLimit_def)
next
  show "length ds = 2500 \<longrightarrow> map length (DiffIPSetDescriptors [] ds) = [1000, 1000, 500]"
  proof
    assume l: "length ds = 2500"
    have "replicate 2 (1000::nat) = [1000, 1000]" by (simp add: numeral_2_eq_2)
    then show "map length (DiffIPSetDescriptors [] ds) = [1000, 1000, 500]"
      by (simp add: DiffIPSetDescriptors_sizes DiffIPSetDescriptors_total_Nil l)
  qed
qed

theorem DiffIPSetDescriptors_batch_count_witness:
  "length (ipv4_hosts 2500) = 2500 \<and>
   map length (DiffIPSetDescriptors [] (ipv4_hosts 2500)) = [1000, 1000, 500]"
  using DiffIPSetDescriptors_batch_count [of "[]" "[]" "ipv4_hosts 2500"]
  by simp

text \<open>
  C6 (trailing empty batch on exact multiples), as stated, fails: the running batch is
  closed only when the next update arrives and finds it full, so with exactly 1000
  operations the plan is the one full batch, and it does not end with an empty batch.
\<close>

theorem DiffIPSetDescriptors_trailing_batch_counterexample:
  "length (concat (DiffIPSetDescriptors [] (ipv4_hosts 1000))) = 1000 \<and>
   map length (DiffIPSetDescriptors [] (ipv4_hosts 1000)) = [1000] \<and>
   last (DiffIPSetDescriptors [] (ipv4_hosts 1000)) \<noteq> []"
proof -
  have m: "map length (DiffIPSetDescriptors [] (ipv4_hosts 1000)) = [1000]"
    by (simp add: DiffIPSetDescriptors_sizes DiffIPSetDescriptors_total_Nil)
  then obtain b where b: "DiffIPSetDescriptors [] (ipv4_hosts 1000) = [b]" "length b = 1000"
    by (auto simp: map_eq_Cons_conv)
  then have "b \<noteq> []" by auto
  with m b show ?thesis by (simp add: DiffIPSetDescriptors_total_Nil)
qed

text \<open>
  C6, amended. When the total number of operations is a positive multiple of
  \<open>ipSetUpdatesLimit = 1000\<close>, the plan consists of exactly total / 1000 batches of 1000
  operations each, and no batch of it is empty.
\<close>

theorem DiffIPSetDescriptors_exact_multiple:
  assumes "0 < length (concat (DiffIPSetDescriptors old new))"
    and "length (concat (DiffIPSetDescriptors old new)) mod nat ipSetUpdatesLimit = 0"
  shows "map length (DiffIPSetDescriptors old new) =
           replicate (length (concat (DiffIPSetDescriptors old new)) div nat ipSetUpdatesLimit)
             (nat ipSetUpdatesLimit)
         \<and> [] \<notin> set (DiffIPSetDescriptors old new)"
proof -
  define t where "t = length (concat (DiffIPSetDescriptors old new))"
  from assms obtain q where q: "t = Suc q * 1000"
    unfolding t_def [symmetric] ipSetUpdatesLimit_def
    by (cases "t div 1000") (auto simp: mod_eq_0_iff_dvd)
  have d: "(t - 1) div 1000 = q"
  proof -
    have "t - 1 = 999 + q * 1000" by (simp add: q)
    then show ?thesis by simp
  qed
  have "map length (DiffIPSetDescriptors old new) = replicate q 1000 @ [1000]"
    using DiffIPSetDescriptors_sizes [of old new] unfolding t_def [symmetric] d
    by (simp add: q)
  also have "\<dots> = replicate (Suc q) 1000" by (simp add: replicate_append_same)
  finally have m: "map length (DiffIPSetDescriptors old new) = replicate (t div 1000) 1000"
    by (simp add: q)
  have "[] \<notin> set (DiffIPSetDescriptors old new)"
  proof
    assume "[] \<in> set (DiffIPSetDescriptors old new)"
    then have "0 \<in> set (map length (DiffIPSetDescriptors old new))" by force
    then show False unfolding m by simp
  qed
  with m show ?thesis by (simp add: t_def ipSetUpdatesLimit_def)
qed

theorem DiffIPSetDescriptors_exact_multiple_witness:
  "0 < length (concat (DiffIPSetDescriptors [] (ipv4_hosts 2000))) \<and>
   length (concat (DiffIPSetDescriptors [] (ipv4_hosts 2000))) mod nat ipSetUpdatesLimit = 0 \<and>
   map length (DiffIPSetDescriptors [] (ipv4_hosts 2000)) = [1000, 1000]"
  using DiffIPSetDescriptors_exact_multiple [of "[]" "ipv4_hosts 2000"]
  by (simp add: DiffIPSetDescriptors_total_Nil ipSetUpdatesLimit_def numeral_2_eq_2)

text \<open>
  C7 (first-available duplicate matching). Whatever the two slices share: when the
  record the loop reads first from \<open>old\<close> has an equal in \<open>new\<close>, the search finds the
  first equal record, \<open>newD\<close> loses exactly that element, and the call returns what it
  returns for the rest of \<open>old\<close> and the shortened \<open>newD\<close>, so no operation is emitted for
  the record. For two slices of their own that hold \<open>od # old\<close> and \<open>new\<close>: when \<open>od\<close> is
  in \<open>new\<close> the plan is that for \<open>old\<close> and \<open>new\<close> without its first \<open>od\<close>; when it is not, a
  delete of \<open>od\<close> comes first; with \<open>old\<close> empty every record of \<open>new\<close> is inserted as often
  as it occurs. So nothing is deduplicated: a record is inserted as often as \<open>new\<close>
  holds it more often than \<open>old\<close>, and deleted as often as \<open>old\<close> holds it more often.
\<close>

theorem DiffIPSetDescriptors_first_available:
  "(0 < len oldS \<and> h (ptr oldS) \<in> set (elems h newS0) \<longrightarrow>
      (\<exists>idx. sliceContainsMap (elems h newS0) (h (ptr oldS)) = Some idx \<and>
             idx < len newS0 \<and> elems h newS0 ! idx = h (ptr oldS) \<and>
             h (ptr oldS) \<notin> set (take idx (elems h newS0)) \<and>
             elems (delete_at h newS0 idx) (newS0\<lparr>len := len newS0 - 1\<rparr>) =
               take idx (elems h newS0) @ drop (idx + 1) (elems h newS0) \<and>
             DiffIPSetDescriptors_store h oldS newS0 =
               DiffIPSetDescriptors_store (delete_at h newS0 idx)
                 \<lparr>ptr = ptr oldS + 1, len = len oldS - 1\<rparr> (newS0\<lparr>len := len newS0 - 1\<rparr>))) \<and>
   (od \<in> set new \<longrightarrow>
      DiffIPSetDescriptors (od # old) new = DiffIPSetDescriptors old (remove1 od new)) \<and>
   (od \<notin> set new \<longrightarrow>
      concat (DiffIPSetDescriptors (od # old) new) =
        mk_update DELETE od # concat (DiffIPSetDescriptors old new)) \<and>
   concat (DiffIPSetDescriptors [] new) = map (mk_update INSERT) new \<and>
   count_list (concat (DiffIPSetDescriptors old new)) (mk_update INSERT d) =
     count_list new d - count_list old d \<and>
   count_list (concat (DiffIPSetDescriptors old new)) (mk_update DELETE d) =
     count_list old d - count_list new d"
proof -
  have "\<exists>idx. sliceContainsMap (elems h newS0) (h (ptr oldS)) = Some idx \<and>
             idx < len newS0 \<and> elems h newS0 ! idx = h (ptr oldS) \<and>
             h (ptr oldS) \<notin> set (take idx (elems h newS0)) \<and>
             elems (delete_at h newS0 idx) (newS0\<lparr>len := len newS0 - 1\<rparr>) =
               take idx (elems h newS0) @ drop (idx + 1) (elems h newS0) \<and>
             DiffIPSetDescriptors_store h oldS newS0 =
               DiffIPSetDescriptors_store (delete_at h newS0 idx)
                 \<lparr>ptr = ptr oldS + 1, len = len oldS - 1\<rparr> (newS0\<lparr>len := len newS0 - 1\<rparr>)"
    if l: "0 < len oldS" and m: "h (ptr oldS) \<in> set (elems h newS0)"
  proof -
    from m obtain idx where idx: "sliceContainsMap (elems h newS0) (h (ptr oldS)) = Some idx"
      using sliceContainsMap_None [of "elems h newS0" "h (ptr oldS)"] by auto
    from sliceContainsMap_Some [OF idx]
    have some: "idx < len newS0" "elems h newS0 ! idx = h (ptr oldS)"
      "h (ptr oldS) \<notin> set (take idx (elems h newS0))"
      by simp_all
    from idx some elems_delete_at [OF some(1), of h]
      DiffIPSetDescriptors_store_first_match [OF l idx]
    show ?thesis by blast
  qed
  moreover have "concat (DiffIPSetDescriptors [] new) = map (mk_update INSERT) new"
    by (simp add: DiffIPSetDescriptors_concat)
  ultimately show ?thesis
    using DiffIPSetDescriptors_Cons_match [of od new old]
      DiffIPSetDescriptors_Cons_no_match [of od new old]
      DiffIPSetDescriptors_counts [of old new d]
    by (intro conjI impI) (simp_all only: simp_thms)
qed

theorem DiffIPSetDescriptors_first_available_witness:
  "0 < len \<lparr>ptr = 0, len = 1\<rparr> \<and>
   store_of [\<lparr>d_type = ''IPV4'', d_value = ''10.0.0.0/8''\<rparr>,
             \<lparr>d_type = ''IPV4'', d_value = ''5.6.7.0/24''\<rparr>,
             \<lparr>d_type = ''IPV4'', d_value = ''10.0.0.0/8''\<rparr>,
             \<lparr>d_type = ''IPV4'', d_value = ''1.2.3.0/24''\<rparr>,
             \<lparr>d_type = ''IPV4'', d_value = ''10.0.0.0/8''\<rparr>] (ptr \<lparr>ptr = 0, len = 1\<rparr>)
     \<in> set (elems (store_of [\<lparr>d_type = ''IPV4'', d_value = ''10.0.0.0/8''\<rparr>,
             \<lparr>d_type = ''IPV4'', d_value = ''5.6.7.0/24''\<rparr>,
             \<lparr>d_type = ''IPV4'', d_value = ''10.0.0.0/8''\<rparr>,
             \<lparr>d_type = ''IPV4'', d_value = ''1.2.3.0/24''\<rparr>,
             \<lparr>d_type = ''IPV4'', d_value = ''10.0.0.0/8''\<rparr>]) \<lparr>ptr = 1, len = 4\<rparr>) \<and>
   fst (DiffIPSetDescriptors_store
      (store_of [\<lparr>d_type = ''IPV4'', d_value = ''10.0.0.0/8''\<rparr>,
             \<lparr>d_type = ''IPV4'', d_value = ''5.6.7.0/24''\<rparr>,
             \<lparr>d_type = ''IPV4'', d_value = ''10.0.0.0/8''\<rparr>,
             \<lparr>d_type = ''IPV4'', d_value = ''1.2.3.0/24''\<rparr>,
             \<lparr>d_type = ''IPV4'', d_value = ''10.0.0.0/8''\<rparr>])
      \<lparr>ptr = 0, len = 1\<rparr> \<lparr>ptr = 1, len = 4\<rparr>) =
     [[\<lparr>Action = INSERT, Descriptor = \<lparr>Type = ''IPV4'', Value = ''5.6.7.0/24''\<rparr>\<rparr>,
       \<lparr>Action = INSERT, Descriptor = \<lparr>Type = ''IPV4'', Value = ''1.2.3.0/24''\<rparr>\<rparr>,
       \<lparr>Action = INSERT, Descriptor = \<lparr>Type = ''IPV4'', Value = ''10.0.0.0/8''\<rparr>\<rparr>]] \<and>
   DiffIPSetDescriptors
      [\<lparr>d_type = ''IPV4'', d_value = ''10.0.0.0/8''\<rparr>]
      [\<lparr>d_type = ''IPV4'', d_value = ''5.6.7.0/24''\<rparr>,
       \<lparr>d_type = ''IPV4'', d_value = ''10.0.0.0/8''\<rparr>,
       \<lparr>d_type = ''IPV4'', d_value = ''1.2.3.0/24''\<rparr>,
       \<lparr>d_type = ''IPV4'', d_value = ''10.0.0.0/8''\<rparr>] =
     [[\<lparr>Action = INSERT, Descriptor = \<lparr>Type = ''IPV4'', Value = ''5.6.7.0/24''\<rparr>\<rparr>,
       \<lparr>Action = INSERT, Descriptor = \<lparr>Type = ''IPV4'', Value = ''1.2.3.0/24''\<rparr>\<rparr>,
       \<lparr>Action = INSERT, Descriptor = \<lparr>Type = ''IPV4'', Value = ''10.0.0.0/8''\<rparr>\<rparr>]] \<and>
   concat (DiffIPSetDescriptors
      [\<lparr>d_type = ''IPV4'', d_value = ''1.2.3.0/24''\<rparr>,
       \<lparr>d_type = ''IPV4'', d_value = ''10.0.0.0/8''\<rparr>,
       \<lparr>d_type = ''IPV4'', d_value = ''10.0.0.0/8''\<rparr>]
      [\<lparr>d_type = ''IPV4'', d_value = ''10.0.0.0/8''\<rparr>]) =
     [\<lparr>Action = DELETE, Descriptor = \<lparr>Type = ''IPV4'', Value = ''1.2.3.0/24''\<rparr>\<rparr>,
      \<lparr>Action = DELETE, Descriptor = \<lparr>Type = ''IPV4'', Value = ''10.0.0.0/8''\<rparr>\<rparr>]"
proof -
  let ?a = "\<lparr>d_type = ''IPV4'', d_value = ''10.0.0.0/8''\<rparr>"
  let ?b = "\<lparr>d_type = ''IPV4'', d_value = ''5.6.7.0/24''\<rparr>"
  let ?c = "\<lparr>d_type = ''IPV4'', d_value = ''1.2.3.0/24''\<rparr>"
  let ?h = "store_of [?a, ?b, ?a, ?c, ?a]"
  let ?oldS = "\<lparr>ptr = 0, len = 1\<rparr>"
  let ?newS = "\<lparr>ptr = 1, len = 4\<rparr>"
  have l: "0 < len ?oldS" by simp
  have e: "elems ?h ?newS = [?b, ?a, ?c, ?a]" by code_simp
  have r: "?h (ptr ?oldS) = ?a" by code_simp
  have m: "?h (ptr ?oldS) \<in> set (elems ?h ?newS)" unfolding e r by simp
  have i: "sliceContainsMap (elems ?h ?newS) (?h (ptr ?oldS)) = Some 1" by code_simp
  have rest: "fst (DiffIPSetDescriptors_store (delete_at ?h ?newS 1)
        \<lparr>ptr = ptr ?oldS + 1, len = len ?oldS - 1\<rparr> (?newS\<lparr>len := len ?newS - 1\<rparr>)) =
      [[mk_update INSERT ?b, mk_update INSERT ?c, mk_update INSERT ?a]]"
    by code_simp
  have "fst (DiffIPSetDescriptors_store ?h ?oldS ?newS) =
      [[mk_update INSERT ?b, mk_update INSERT ?c, mk_update INSERT ?a]]"
    using DiffIPSetDescriptors_first_available [of ?oldS ?h ?newS] l m i rest by auto
  moreover have "DiffIPSetDescriptors [] [?b, ?c, ?a] =
      [[mk_update INSERT ?b, mk_update INSERT ?c, mk_update INSERT ?a]]"
    by code_simp
  then have "DiffIPSetDescriptors [?a] [?b, ?a, ?c, ?a] =
      [[mk_update INSERT ?b, mk_update INSERT ?c, mk_update INSERT ?a]]"
    using DiffIPSetDescriptors_first_available [of _ _ _ ?a "[?b, ?a, ?c, ?a]" "[]"]
    by simp
  moreover have "concat (DiffIPSetDescriptors [?c, ?a, ?a] [?a]) =
      [mk_update DELETE ?c, mk_update DELETE ?a]"
  proof -
    have 1: "concat (DiffIPSetDescriptors [?c, ?a, ?a] [?a]) =
        mk_update DELETE ?c # concat (DiffIPSetDescriptors [?a, ?a] [?a])"
      using DiffIPSetDescriptors_first_available [of _ _ _ ?c "[?a]" "[?a, ?a]"] by simp
    have 2: "DiffIPSetDescriptors [?a, ?a] [?a] = DiffIPSetDescriptors [?a] []"
      using DiffIPSetDescriptors_first_available [of _ _ _ ?a "[?a]" "[?a]"] by simp
    have 3: "concat (DiffIPSetDescriptors [?a] []) =
        mk_update DELETE ?a # concat (DiffIPSetDescriptors [] [])"
      using DiffIPSetDescriptors_first_available [of _ _ _ ?a "[]" "[]"] by simp
    have 4: "concat (DiffIPSetDescriptors [] []) = []"
      using DiffIPSetDescriptors_first_available [of _ _ _ _ "[]"] by simp
    show ?thesis by (simp only: 1 2 3 4)
  qed
  ultimately show ?thesis using l m by (simp add: mk_update_def)
qed

text \<open>
  C9 (sequential execution, stop on first failure). \<open>updateIPSetDescriptors\<close> submits the
  batches of the plan in order, one call each. When every call succeeds it returns
  \<open>nil\<close> and the remote is in the state after all batches. When the batches \<open>pre\<close>
  succeed and the call for the next batch \<open>b\<close> fails with \<open>e\<close>, it returns the error
  made from \<open>e\<close> and the remote is left in the state \<open>v\<close> in which that failed call left
  it: nothing is undone and no batch of \<open>post\<close> is submitted. When the failed call
  changes nothing, the remote is therefore in the state after the batches \<open>pre\<close>,
  exactly those that succeeded.
\<close>

theorem updateIPSetDescriptors_stops_at_first_failure:
  "(all_succeed call i (DiffIPSetDescriptors old new) w \<longrightarrow>
      updateIPSetDescriptors call i old new w =
        (None, remote_after call i (DiffIPSetDescriptors old new) w)) \<and>
   (DiffIPSetDescriptors old new = pre @ b # post \<and> all_succeed call i pre w \<and>
    call i b (remote_after call i pre w) = (Some e, v) \<longrightarrow>
      updateIPSetDescriptors call i old new w = (Some (Msg ''updating WAF IPSet: '' e), v)) \<and>
   (DiffIPSetDescriptors old new = pre @ b # post \<and> all_succeed call i pre w \<and>
    call i b (remote_after call i pre w) = (Some e, remote_after call i pre w) \<longrightarrow>
      updateIPSetDescriptors call i old new w =
        (Some (Msg ''updating WAF IPSet: '' e), remote_after call i pre w))"
  by (auto simp: updateIPSetDescriptors_def update_batches_all_succeed
      update_batches_first_failure)

theorem updateIPSetDescriptors_stops_at_first_failure_witness:
  "updateIPSetDescriptors (rejecting_at 1) ''ipset-1'' [] (ipv4_hosts 2500) [] =
     (Some (Msg ''updating WAF IPSet: '' (AWSError ''WAFInternalErrorException'' ''internal error'')),
      take 1 (DiffIPSetDescriptors [] (ipv4_hosts 2500))) \<and>
   updateIPSetDescriptors (rejecting_at 3) ''ipset-1'' [] (ipv4_hosts 2500) [] =
     (None, DiffIPSetDescriptors [] (ipv4_hosts 2500)) \<and>
   length (DiffIPSetDescriptors [] (ipv4_hosts 2500)) = 3"
proof -
  let ?e = "AWSError ''WAFInternalErrorException'' ''internal error''"
  have "map length (DiffIPSetDescriptors [] (ipv4_hosts 2500)) = [1000, 1000, 500]"
    by (simp add: DiffIPSetDescriptors_sizes DiffIPSetDescriptors_total_Nil numeral_2_eq_2)
  then obtain x y z where d: "DiffIPSetDescriptors [] (ipv4_hosts 2500) = [x] @ y # [z]"
    by (auto simp: map_eq_Cons_conv)
  have 1: "all_succeed (rejecting_at 1) ''ipset-1'' [x] []"
    by (simp add: all_succeed_def rejecting_at_def remote_after_def)
  have r: "remote_after (rejecting_at 1) ''ipset-1'' [x] [] = [x]"
    by (simp add: rejecting_at_def remote_after_def)
  have 2: "rejecting_at 1 ''ipset-1'' y (remote_after (rejecting_at 1) ''ipset-1'' [x] []) =
      (Some ?e, remote_after (rejecting_at 1) ''ipset-1'' [x] [])"
    unfolding r by (simp add: rejecting_at_def)
  have 3: "all_succeed (rejecting_at 3) ''ipset-1'' (DiffIPSetDescriptors [] (ipv4_hosts 2500)) []"
    by (simp add: d all_succeed_Cons rejecting_at_def) (simp add: all_succeed_def)
  have 4: "remote_after (rejecting_at 3) ''ipset-1'' (DiffIPSetDescriptors [] (ipv4_hosts 2500)) [] =
      DiffIPSetDescriptors [] (ipv4_hosts 2500)"
    by (simp add: d remote_after_def rejecting_at_def)
  from updateIPSetDescriptors_stops_at_first_failure
    [of "rejecting_at 1" "''ipset-1''" "[]" "ipv4_hosts 2500" "[]" "[x]" y "[z]" ?e]
    updateIPSetDescriptors_stops_at_first_failure
    [of "rejecting_at 3" "''ipset-1''" "[]" "ipv4_hosts 2500" "[]"]
    d 1 2 3 4 r
  show ?thesis by simp
qed

text \<open>
  C10 (deleting a Transfer user that is gone). When \<open>DeleteUser\<close> fails with
  \<open>ResourceNotFoundException\<close>, \<open>userDelete\<close> returns \<open>nil\<close> and the remote is in the state
  \<open>DeleteUser\<close> left, so \<open>waitUserDeleted\<close> is not called. When \<open>DeleteUser\<close> fails with any
  other error, \<open>userDelete\<close> returns that error, wrapped, again without waiting.
\<close>

theorem userDelete_not_found:
  "(DeleteUser serverID userName w = (Some e, w1) \<and>
    ErrCodeEquals (Some e) ErrCodeResourceNotFoundException \<longrightarrow>
      userDelete mk_id DeleteUser waitUserDeleted serverID userName w = (None, w1)) \<and>
   (DeleteUser serverID userName w = (Some e, w1) \<and>
    \<not> ErrCodeEquals (Some e) ErrCodeResourceNotFoundException \<longrightarrow>
      userDelete mk_id DeleteUser waitUserDeleted serverID userName w =
        (Some (Wrap (''deleting Transfer User ('' @ mk_id serverID userName @ ''): '') e), w1))"
  by (simp add: userDelete_def)

theorem userDelete_not_found_witness:
  "userDelete (\<lambda>s u. s @ ''/'' @ u)
     (logged ''DeleteUser'' (Some (AWSError ''ResourceNotFoundException'' ''Unknown user'')))
     (logged ''waitUserDeleted'' None) ''s-0123456789abcdef0'' ''alice'' [] =
     (None, [''DeleteUser'']) \<and>
   userDelete (\<lambda>s u. s @ ''/'' @ u)
     (logged ''DeleteUser'' (Some (AWSError ''AccessDeniedException'' ''denied'')))
     (logged ''waitUserDeleted'' None) ''s-0123456789abcdef0'' ''alice'' [] =
     (Some (Wrap ''deleting Transfer User (s-0123456789abcdef0/alice): ''
        (AWSError ''AccessDeniedException'' ''denied'')), [''DeleteUser''])"
  using userDelete_not_found
    [of "logged ''DeleteUser'' (Some (AWSError ''ResourceNotFoundException'' ''Unknown user''))"
        "''s-0123456789abcdef0''" "''alice''" "[]"
        "AWSError ''ResourceNotFoundException'' ''Unknown user''" "[''DeleteUser'']"
        "\<lambda>s u. s @ ''/'' @ u" "logged ''waitUserDeleted'' None"]
    userDelete_not_found
    [of "logged ''DeleteUser'' (Some (AWSError ''AccessDeniedException'' ''denied''))"
        "''s-0123456789abcdef0''" "''alice''" "[]"
        "AWSError ''AccessDeniedException'' ''denied''" "[''DeleteUser'']"
        "\<lambda>s u. s @ ''/'' @ u" "logged ''waitUserDeleted'' None"]
  by (simp add: logged_def ErrCodeResourceNotFoundException_def)

end
